theory Spec2Isabelle
  imports Complex_Main
begin

section \<open>The stepper motor controller of stepper_motor.py\<close>

text \<open>
  The module drives a stepper motor over three output lines and keeps a circular step
  counter. The embedding follows the class \<open>StepperMotor\<close> method by method.

  Numbers: step counts and positions are Python integers (\<open>int\<close>). \<open>rpm\<close> and
  \<open>degree\<close> may be integers or finite floats; each is given by its exact value, a
  rational. Python's true division rounds its result to binary64. The angle check of
  \<open>go_to_position\<close>, which compares a rounded quotient with its own truncation, is
  modelled with that rounding (\<open>degree_to_steps\<close>), and so is the value of the timer
  (\<open>calculate_delay_from_rpm_binary64\<close>). The executor uses the timer only through its
  failure and the sign of the delay; \<open>step\<close> is built on \<open>calculate_delay_from_rpm\<close>,
  which divides exactly, and \<open>calculate_delay_agree\<close> relates the two. Every division
  is written with its \<open>ZeroDivisionError\<close> branch.

  Effects: the object's fields are a record that is passed through every method. The
  GPIO writes and sleeps are appended to \<open>hw_trace\<close>, oldest first, so that the pulses a
  call emits can be counted. A method that can raise returns the exception (or the
  result) together with the object as the raise left it.
\<close>

subsection \<open>Exceptions, hardware events, the object\<close>

datatype exn =
    ValueError string
  | IndexError string
  | AttributeError string
  | ZeroDivisionError
  | OverflowError string

datatype level = LOW | HIGH

text \<open>A hardware line is named by the attribute through which the code addresses it.\<close>

datatype line = EnablePin | DirectionPin | PulsePin

datatype event =
    GpioSetmodeBCM
  | GpioSetup line
  | GpioOutput line level
  | Sleep rat

record StepperMotor =
  enable_pin :: int
  direction_pin :: int
  pulse_pin :: int
  steps_per_revolution :: int
  max_rpm :: "rat option"
  hold_position :: bool
  steps_from_home :: "int option"
  hw_trace :: "event list"

type_synonym 'a run = "(exn + 'a) \<times> StepperMotor"

text \<open>Sequencing: an exception ends the method, keeping the object as it is then.\<close>

definition and_then :: "'a run \<Rightarrow> ('a \<Rightarrow> StepperMotor \<Rightarrow> 'b run) \<Rightarrow> 'b run" where
  "and_then r k = (case r of (Inl e, s) \<Rightarrow> (Inl e, s) | (Inr x, s) \<Rightarrow> k x s)"

subsection \<open>The raise sites, under the names the specification gives them\<close>

definition SpeedExceeded :: exn where
  "SpeedExceeded = ValueError ''Desired rpm is higher than max_rpm''"

definition PositionUnknown :: exn where
  "PositionUnknown = AttributeError
     ''Cannot go to position if home position has not been set -> self.steps_from home is set to None.''"

definition AmbiguousTarget_neither :: exn where
  "AmbiguousTarget_neither = ValueError ''No argument for steps_relative_to_home or degree was given.''"

definition AmbiguousTarget_both :: exn where
  "AmbiguousTarget_both = ValueError
     ''Only specify steps_relative_to_home or degree. Not both at the same time.''"

definition OutOfRange_degree :: exn where
  "OutOfRange_degree = IndexError ''Value for degree has to be between 0 and 360.''"

definition NotAStepMultiple :: exn where
  "NotAStepMultiple = ValueError
     ''Value given for degree is not a multiple of the motors step angle.''"

definition OutOfRange_steps :: exn where
  "OutOfRange_steps = IndexError
     ''Value given for steps_relative_to_home exceeds self.steps_per_revolution.''"

text \<open>\<open>time.sleep\<close> refuses a negative duration with this exception.\<close>

definition SleepNegative :: exn where
  "SleepNegative = ValueError ''sleep length must be non-negative''"

text \<open>The specification's \<open>OutOfRange\<close> is either of the two \<open>IndexError\<close>s.\<close>

definition is_OutOfRange :: "exn \<Rightarrow> bool" where
  "is_OutOfRange e = (e = OutOfRange_degree \<or> e = OutOfRange_steps)"

subsection \<open>Library operations\<close>

definition py_truediv :: "rat \<Rightarrow> rat \<Rightarrow> exn + rat" where
  "py_truediv a b = (if b = 0 then Inl ZeroDivisionError else Inr (a / b))"

text \<open>Python's \<open>int(x)\<close> on a number truncates towards zero.\<close>

definition py_int :: "rat \<Rightarrow> int" where
  "py_int x = (if 0 \<le> x then \<lfloor>x\<rfloor> else \<lceil>x\<rceil>)"

text \<open>
  A Python float is an IEEE 754 binary64 value. A finite one is given by its exact
  rational value; the sign of zero is not kept, since nothing in this module can observe
  it (a division by either zero raises, comparisons treat both alike, and \<open>int\<close> of both
  is 0). \<open>NaN\<close> is left out: no operation below produces it from its arguments.
\<close>

datatype pyfloat = Finite rat | PosInf | NegInf

text \<open>The number of binary digits of a positive integer.\<close>

function bit_length :: "int \<Rightarrow> int" where
  "bit_length n = (if n \<le> 0 then 0 else 1 + bit_length (n div 2))"
  by pat_completeness auto
termination
  by (relation "measure nat") auto

declare bit_length.simps [simp del]

definition pow2 :: "int \<Rightarrow> rat" where
  "pow2 e = (if 0 \<le> e then 2 ^ nat e else 1 / 2 ^ nat (- e))"

text \<open>For \<open>x > 0\<close>, the exponent \<open>e\<close> with \<open>2^e \<le> x < 2^(e+1)\<close>.\<close>

definition ilog2 :: "rat \<Rightarrow> int" where
  "ilog2 x =
     (if 1 \<le> x then bit_length \<lfloor>x\<rfloor> - 1
      else - bit_length (\<lceil>1 / x\<rceil> - 1))"

definition round_half_even :: "rat \<Rightarrow> int" where
  "round_half_even x =
     (let f = \<lfloor>x\<rfloor>; d = x - of_int f
      in if d < 1 / 2 then f
         else if 1 / 2 < d then f + 1
         else if even f then f else f + 1)"

text \<open>
  Rounding a rational to binary64, to nearest with ties to even: 53 significant bits,
  least exponent \<open>-1022\<close> (below it the spacing stays \<open>2^-1074\<close>, the subnormal
  range), and an infinity once the rounded magnitude reaches \<open>2^1024\<close>.
\<close>

definition binary64 :: "rat \<Rightarrow> pyfloat" where
  "binary64 x =
     (if x = 0 then Finite 0
      else
        let a = \<bar>x\<bar>;
            e = max (ilog2 a) (- 1022);
            u = pow2 (e - 52);
            r = of_int (round_half_even (a / u)) * u
        in if pow2 1024 \<le> r then (if 0 < x then PosInf else NegInf)
           else Finite (if 0 < x then r else - r))"

text \<open>
  \<open>a / b\<close> for two integers: the correctly rounded quotient, with Python's own error
  when it is too large.
\<close>

definition int_truediv :: "int \<Rightarrow> int \<Rightarrow> exn + rat" where
  "int_truediv a b =
     (if b = 0 then Inl ZeroDivisionError
      else case binary64 (of_int a / of_int b) of
             Finite r \<Rightarrow> Inr r
           | _ \<Rightarrow> Inl (OverflowError ''integer division result too large for a float''))"

text \<open>The conversion of an integer operand of a float operation.\<close>

definition float_of_int :: "int \<Rightarrow> exn + rat" where
  "float_of_int n =
     (case binary64 (of_int n) of
        Finite r \<Rightarrow> Inr r
      | _ \<Rightarrow> Inl (OverflowError ''int too large to convert to float''))"

text \<open>\<open>x / b\<close> for a float \<open>x\<close> and a finite float \<open>b\<close>.\<close>

definition float_truediv :: "pyfloat \<Rightarrow> rat \<Rightarrow> exn + pyfloat" where
  "float_truediv x b =
     (if b = 0 then Inl ZeroDivisionError
      else Inr (case x of
                  Finite a \<Rightarrow> binary64 (a / b)
                | PosInf \<Rightarrow> (if 0 < b then PosInf else NegInf)
                | NegInf \<Rightarrow> (if 0 < b then NegInf else PosInf)))"

text \<open>\<open>int(x)\<close> for a float \<open>x\<close>.\<close>

definition int_of_float :: "pyfloat \<Rightarrow> exn + int" where
  "int_of_float x =
     (case x of
        Finite r \<Rightarrow> Inr (py_int r)
      | _ \<Rightarrow> Inl (OverflowError ''cannot convert float infinity to integer''))"

definition gpio_output :: "line \<Rightarrow> level \<Rightarrow> StepperMotor \<Rightarrow> StepperMotor" where
  "gpio_output l v self = self\<lparr>hw_trace := hw_trace self @ [GpioOutput l v]\<rparr>"

definition time_sleep :: "rat \<Rightarrow> StepperMotor \<Rightarrow> unit run" where
  "time_sleep secs self =
     (if secs < 0 then (Inl SleepNegative, self)
      else (Inr (), self\<lparr>hw_trace := hw_trace self @ [Sleep secs]\<rparr>))"

subsection \<open>The methods\<close>

definition init :: "int \<Rightarrow> int \<Rightarrow> int \<Rightarrow> int \<Rightarrow> rat option \<Rightarrow> bool \<Rightarrow> StepperMotor" where
  "init enable direction pulse spr maxrpm hold =
     \<lparr> enable_pin = enable, direction_pin = direction, pulse_pin = pulse,
       steps_per_revolution = spr, max_rpm = maxrpm, hold_position = hold,
       steps_from_home = None,
       hw_trace = [GpioSetmodeBCM, GpioSetup EnablePin, GpioSetup DirectionPin,
                   GpioSetup PulsePin, GpioOutput EnablePin (if hold then LOW else HIGH)] \<rparr>"

definition calculate_delay_from_rpm :: "StepperMotor \<Rightarrow> rat \<Rightarrow> exn + rat" where
  "calculate_delay_from_rpm self rpm =
     (case py_truediv 60 rpm of
        Inl e \<Rightarrow> Inl e
      | Inr time_per_revolution \<Rightarrow>
          py_truediv time_per_revolution (of_int (steps_per_revolution self * 2)))"

text \<open>
  \<open>calculate_delay_from_rpm\<close> once more, with both divisions rounded to binary64 as
  Python performs them: \<open>60 / rpm\<close> for an integer or finite float \<open>rpm\<close> given by
  its exact value, then the float quotient by the integer \<open>steps_per_revolution * 2\<close>,
  which is converted to a float first.
\<close>

definition calculate_delay_from_rpm_binary64 :: "StepperMotor \<Rightarrow> rat \<Rightarrow> exn + pyfloat" where
  "calculate_delay_from_rpm_binary64 self rpm =
     (case float_truediv (Finite 60) rpm of
        Inl e \<Rightarrow> Inl e
      | Inr time_per_revolution \<Rightarrow>
          (case float_of_int (steps_per_revolution self * 2) of
             Inl e \<Rightarrow> Inl e
           | Inr d \<Rightarrow> float_truediv time_per_revolution d))"

definition set_current_position_as_home :: "StepperMotor \<Rightarrow> StepperMotor" where
  "set_current_position_as_home self = self\<lparr>steps_from_home := Some 0\<rparr>"

definition update_position :: "bool \<Rightarrow> StepperMotor \<Rightarrow> StepperMotor" where
  "update_position turn_clockwise self =
     (case steps_from_home self of
        None \<Rightarrow> self
      | Some p \<Rightarrow>
          if turn_clockwise then
            (if p + 1 = steps_per_revolution self
             then self\<lparr>steps_from_home := Some 0\<rparr>
             else self\<lparr>steps_from_home := Some (p + 1)\<rparr>)
          else
            (if p = 0
             then self\<lparr>steps_from_home := Some (steps_per_revolution self - 1)\<rparr>
             else self\<lparr>steps_from_home := Some (p - 1)\<rparr>))"

text \<open>
  The body of \<open>for i in range(steps)\<close>: one pulse (high, sleep, low, sleep), then one
  position update. \<open>range\<close> of a non-positive count is empty, so the loop runs
  \<open>nat steps\<close> times.
\<close>

fun pulse_loop :: "nat \<Rightarrow> bool \<Rightarrow> rat \<Rightarrow> StepperMotor \<Rightarrow> unit run" where
  "pulse_loop 0 turn_clockwise delay_in_seconds self = (Inr (), self)"
| "pulse_loop (Suc n) turn_clockwise delay_in_seconds self =
     and_then (time_sleep delay_in_seconds (gpio_output PulsePin HIGH self)) (\<lambda>_ s1.
     and_then (time_sleep delay_in_seconds (gpio_output PulsePin LOW s1)) (\<lambda>_ s2.
     pulse_loop n turn_clockwise delay_in_seconds (update_position turn_clockwise s2)))"

definition step :: "int \<Rightarrow> bool \<Rightarrow> rat \<Rightarrow> StepperMotor \<Rightarrow> unit run" where
  "step steps turn_clockwise rpm self =
     (if (case max_rpm self of None \<Rightarrow> False | Some m \<Rightarrow> rpm > m)
      then (Inl SpeedExceeded, self)
      else
        let s1 = gpio_output DirectionPin (if turn_clockwise then HIGH else LOW) self;
            s2 = gpio_output EnablePin LOW s1
        in case calculate_delay_from_rpm s2 rpm of
             Inl e \<Rightarrow> (Inl e, s2)
           | Inr delay_in_seconds \<Rightarrow>
               and_then (pulse_loop (nat steps) turn_clockwise delay_in_seconds s2) (\<lambda>_ s3.
                 if \<not> hold_position s3
                 then (Inr (), gpio_output EnablePin HIGH s3)
                 else (Inr (), s3)))"

definition do_one_rotation :: "bool \<Rightarrow> rat \<Rightarrow> StepperMotor \<Rightarrow> unit run" where
  "do_one_rotation turn_clockwise rpm self =
     step (steps_per_revolution self) turn_clockwise rpm self"

definition rotate :: "int \<Rightarrow> bool \<Rightarrow> rat \<Rightarrow> StepperMotor \<Rightarrow> unit run" where
  "rotate rotations turn_clockwise rpm self =
     step (rotations * steps_per_revolution self) turn_clockwise rpm self"

text \<open>
  \<open>go_to_position\<close>, lines 124 to 133: the checks on \<open>degree\<close> and its conversion to a
  step index. \<open>degree\<close> is an integer or a finite float, given by its exact value; past
  the range check an integer is converted to a float without rounding. Both
  divisions round to binary64, and the quotient is compared with its own truncation.
\<close>

definition degree_to_steps :: "StepperMotor \<Rightarrow> rat \<Rightarrow> exn + int" where
  "degree_to_steps self degree =
     (if degree < 0 \<or> degree > 360 then Inl OutOfRange_degree
      else case int_truediv 360 (steps_per_revolution self) of
        Inl e \<Rightarrow> Inl e
      | Inr step_angle \<Rightarrow>
          (case float_truediv (Finite degree) step_angle of
             Inl e \<Rightarrow> Inl e
           | Inr q \<Rightarrow>
               (case int_of_float q of
                  Inl e \<Rightarrow> Inl e
                | Inr n \<Rightarrow>
                    if q \<noteq> Finite (of_int n) then Inl NotAStepMultiple
                    else Inr n)))"

text \<open>
  \<open>go_to_position\<close>, lines 137 to 154: nothing to do at the target, the range check on
  the step index, and the four cases of the distance in the chosen direction.
\<close>

definition move_to :: "bool \<Rightarrow> rat \<Rightarrow> int \<Rightarrow> int \<Rightarrow> StepperMotor \<Rightarrow> unit run" where
  "move_to turn_clockwise rpm current steps_relative_to_home self =
     (if steps_relative_to_home = current then (Inr (), self)
      else if steps_relative_to_home < 0
              \<or> steps_relative_to_home > steps_per_revolution self - 1
      then (Inl OutOfRange_steps, self)
      else if turn_clockwise then
        (if steps_relative_to_home > current
         then step (steps_relative_to_home - current) True rpm self
         else step (steps_per_revolution self - current + steps_relative_to_home) True rpm self)
      else
        (if steps_relative_to_home > current
         then step (current + (steps_per_revolution self - steps_relative_to_home)) False rpm self
         else step (current - steps_relative_to_home) False rpm self))"

definition go_to_position ::
  "bool \<Rightarrow> rat \<Rightarrow> int option \<Rightarrow> rat option \<Rightarrow> StepperMotor \<Rightarrow> unit run" where
  "go_to_position turn_clockwise rpm steps_relative_to_home degree self =
     (case steps_from_home self of
        None \<Rightarrow> (Inl PositionUnknown, self)
      | Some current \<Rightarrow>
          (case (steps_relative_to_home, degree) of
             (None, None) \<Rightarrow> (Inl AmbiguousTarget_neither, self)
           | (Some t, Some d) \<Rightarrow> (Inl AmbiguousTarget_both, self)
           | (None, Some d) \<Rightarrow>
               (case degree_to_steps self d of
                  Inl e \<Rightarrow> (Inl e, self)
                | Inr t \<Rightarrow> move_to turn_clockwise rpm current t self)
           | (Some t, None) \<Rightarrow> move_to turn_clockwise rpm current t self))"

subsection \<open>Observations used by the properties\<close>

text \<open>A pulse is counted at its rising edge: a write of high to the pulse line.\<close>

definition pulses :: "StepperMotor \<Rightarrow> nat" where
  "pulses self = length (filter (\<lambda>e. e = GpioOutput PulsePin HIGH) (hw_trace self))"

definition position_in_range :: "StepperMotor \<Rightarrow> bool" where
  "position_in_range self =
     (case steps_from_home self of
        None \<Rightarrow> False
      | Some p \<Rightarrow> 0 \<le> p \<and> p < steps_per_revolution self)"



text \<open>The motor that example.py constructs.\<close>

definition example_motor :: StepperMotor where
  "example_motor = init 17 27 22 200 (Some 630) True"

text \<open>
  The object after one complete pass of the loop body (a pulse that was not interrupted,
  then the position update).
\<close>

definition after_pulse :: "bool \<Rightarrow> rat \<Rightarrow> StepperMotor \<Rightarrow> StepperMotor" where
  "after_pulse cw d s =
     update_position cw
       (s\<lparr>hw_trace := hw_trace s @
          [GpioOutput PulsePin HIGH, Sleep d, GpioOutput PulsePin LOW, Sleep d]\<rparr>)"

text \<open>
  The distance of the specification (section 4.4), written from its words:
  clockwise, \<open>target - current\<close> if \<open>target > current\<close>, else \<open>N - current + target\<close>;
  counterclockwise, \<open>current + (N - target)\<close> if \<open>target > current\<close>, else
  \<open>current - target\<close>.
\<close>

definition spec_distance :: "int \<Rightarrow> bool \<Rightarrow> int \<Rightarrow> int \<Rightarrow> int" where
  "spec_distance N clockwise current target =
     (if clockwise
      then (if target > current then target - current else N - current + target)
      else (if target > current then current + (N - target) else current - target))"

section \<open>Properties\<close>

subsection \<open>The position update and the pulse loop\<close>

lemma update_position_keeps [simp]:
  "steps_per_revolution (update_position cw s) = steps_per_revolution s"
  "max_rpm (update_position cw s) = max_rpm s"
  "hold_position (update_position cw s) = hold_position s"
  "hw_trace (update_position cw s) = hw_trace s"
  by (simp_all add: update_position_def split: option.split)

lemma update_position_unset [simp]:
  "steps_from_home s = None \<Longrightarrow> update_position cw s = s"
  by (simp add: update_position_def)

lemma update_position_mod:
  assumes "steps_from_home s = Some c" "0 \<le> c" "c < steps_per_revolution s"
  shows "steps_from_home (update_position cw s)
         = Some ((if cw then c + 1 else c - 1) mod steps_per_revolution s)"
proof (cases cw)
  case True
  show ?thesis
  proof (cases "c + 1 = steps_per_revolution s")
    case True
    with \<open>cw\<close> assms show ?thesis by (simp add: update_position_def)
  next
    case False
    with assms have "(c + 1) mod steps_per_revolution s = c + 1" by simp
    with False \<open>cw\<close> assms show ?thesis by (simp add: update_position_def)
  qed
next
  case False
  show ?thesis
  proof (cases "c = 0")
    case True
    have "(- 1) mod steps_per_revolution s = steps_per_revolution s - 1"
      using assms True by (simp add: zmod_minus1)
    with True \<open>\<not> cw\<close> assms show ?thesis by (simp add: update_position_def)
  next
    case False
    with assms have "(c - 1) mod steps_per_revolution s = c - 1" by simp
    with False \<open>\<not> cw\<close> assms show ?thesis by (simp add: update_position_def)
  qed
qed

lemma pulses_gpio_output [simp]:
  "pulses (gpio_output l v s) = pulses s + (if l = PulsePin \<and> v = HIGH then 1 else 0)"
  by (simp add: pulses_def gpio_output_def)

lemma pulses_update_position [simp]: "pulses (update_position cw s) = pulses s"
  by (simp add: pulses_def)

lemma gpio_output_keeps [simp]:
  "steps_per_revolution (gpio_output l v s) = steps_per_revolution s"
  "max_rpm (gpio_output l v s) = max_rpm s"
  "hold_position (gpio_output l v s) = hold_position s"
  "steps_from_home (gpio_output l v s) = steps_from_home s"
  by (simp_all add: gpio_output_def)

lemma pulse_loop_Suc:
  "0 \<le> d \<Longrightarrow> pulse_loop (Suc n) cw d s = pulse_loop n cw d (after_pulse cw d s)"
  by (simp add: and_then_def time_sleep_def gpio_output_def after_pulse_def)

lemma after_pulse_keeps [simp]:
  "steps_per_revolution (after_pulse cw d s) = steps_per_revolution s"
  "max_rpm (after_pulse cw d s) = max_rpm s"
  "hold_position (after_pulse cw d s) = hold_position s"
  "pulses (after_pulse cw d s) = Suc (pulses s)"
  by (simp_all add: after_pulse_def pulses_def)

lemma after_pulse_unset [simp]:
  "steps_from_home s = None \<Longrightarrow> steps_from_home (after_pulse cw d s) = None"
  by (simp add: after_pulse_def)



subsection \<open>The timer and the executor\<close>

lemma calculate_delay_value:
  assumes "rpm \<noteq> 0" "steps_per_revolution s \<noteq> 0"
  shows "calculate_delay_from_rpm s rpm = Inr (30 / (rpm * of_int (steps_per_revolution s)))"
  using assms by (simp add: calculate_delay_from_rpm_def py_truediv_def)

lemma calculate_delay_keeps [simp]:
  "calculate_delay_from_rpm (gpio_output l v s) rpm = calculate_delay_from_rpm s rpm"
  by (simp add: calculate_delay_from_rpm_def split: sum.split)

lemma pulse_loop_raises:
  "pulse_loop n cw d s = (Inl e, s') \<Longrightarrow> e = SleepNegative"
proof (induction n arbitrary: s)
  case 0
  then show ?case by simp
next
  case (Suc n)
  show ?case
  proof (cases "0 \<le> d")
    case True
    with Suc.prems have "pulse_loop n cw d (after_pulse cw d s) = (Inl e, s')"
      by (simp only: pulse_loop_Suc)
    then show ?thesis by (rule Suc.IH)
  next
    case False
    with Suc.prems show ?thesis
      by (simp add: and_then_def time_sleep_def)
  qed
qed


lemma exn_distinct [simp]:
  "SpeedExceeded \<noteq> ZeroDivisionError" "SpeedExceeded \<noteq> SleepNegative"
  "ZeroDivisionError \<noteq> SpeedExceeded" "SleepNegative \<noteq> SpeedExceeded"
  by (simp_all add: SpeedExceeded_def SleepNegative_def)

lemma step_raises_accepted:
  assumes "step k cw rpm s = (Inl e, s')"
    and acc: "\<not> (case max_rpm s of None \<Rightarrow> False | Some m \<Rightarrow> rpm > m)"
  shows "e = ZeroDivisionError \<or> e = SleepNegative"
proof -
  let ?s2 = "gpio_output EnablePin LOW (gpio_output DirectionPin (if cw then HIGH else LOW) s)"
  show ?thesis
  proof (cases "calculate_delay_from_rpm ?s2 rpm")
    case (Inl e')
    then have "e' = ZeroDivisionError"
      by (auto simp: calculate_delay_from_rpm_def py_truediv_def split: if_splits sum.splits)
    with Inl acc assms(1) show ?thesis by (simp add: step_def Let_def)
  next
    case (Inr d)
    obtain r t where pl: "pulse_loop (nat k) cw d ?s2 = (r, t)"
      by (cases "pulse_loop (nat k) cw d ?s2")
    show ?thesis
    proof (cases r)
      case (Inl e')
      with pl have "e' = SleepNegative" by (auto dest: pulse_loop_raises)
      with Inl pl Inr acc assms(1) show ?thesis
        by (simp add: step_def Let_def and_then_def)
    next
      case (Inr u)
      with pl \<open>calculate_delay_from_rpm ?s2 rpm = Inr d\<close> acc assms(1) show ?thesis
        by (simp add: step_def Let_def and_then_def split: if_splits)
    qed
  qed
qed

lemma step_raises:
  assumes "step k cw rpm s = (Inl e, s')"
  shows "e = SpeedExceeded \<or> e = ZeroDivisionError \<or> e = SleepNegative"
proof (cases "case max_rpm s of None \<Rightarrow> False | Some m \<Rightarrow> rpm > m")
  case True
  with assms show ?thesis by (simp add: step_def)
next
  case False
  with assms have "e = ZeroDivisionError \<or> e = SleepNegative"
    by (rule step_raises_accepted)
  then show ?thesis by blast
qed


lemma home_keeps [simp]:
  "steps_per_revolution (set_current_position_as_home s) = steps_per_revolution s"
  "max_rpm (set_current_position_as_home s) = max_rpm s"
  "steps_from_home (set_current_position_as_home s) = Some 0"
  by (simp_all add: set_current_position_as_home_def)

lemma update_position_in_range:
  assumes "position_in_range s"
  shows "position_in_range (update_position cw s)"
proof -
  from assms obtain c where c: "steps_from_home s = Some c" "0 \<le> c" "c < steps_per_revolution s"
    by (auto simp: position_in_range_def split: option.splits)
  then have "steps_from_home (update_position cw s)
             = Some ((if cw then c + 1 else c - 1) mod steps_per_revolution s)"
    by (rule update_position_mod)
  moreover from c have "0 < steps_per_revolution s" by simp
  ultimately show ?thesis by (simp add: position_in_range_def)
qed

lemma fold_update_position_in_range:
  "position_in_range s \<Longrightarrow> position_in_range (fold update_position ds s)"
  by (induction ds arbitrary: s) (simp_all add: update_position_in_range)

subsection \<open>Evaluating binary64 divisions\<close>

lemma floor_rat_numeral [simp]:
  "\<lfloor>numeral a / numeral b :: rat\<rfloor> = numeral a div numeral b"
  by (metis floor_divide_of_int_eq of_int_numeral)

lemma ceiling_rat_numeral [simp]:
  "\<lceil>numeral a / numeral b :: rat\<rceil> = - (- numeral a div numeral b)"
  using ceiling_divide_eq_div [of "numeral a" "numeral b", where ?'a = rat] by simp

lemma bit_length_numeral [simp]:
  "bit_length (numeral k) = 1 + bit_length (numeral k div 2)"
  "bit_length 1 = 1" "bit_length 0 = 0"
  by (simp_all add: bit_length.simps [of "numeral k"] bit_length.simps [of 1] bit_length.simps [of 0])

lemmas binary64_eval = binary64_def Let_def ilog2_def pow2_def round_half_even_def

lemma step_angle_200: "int_truediv 360 200 = Inr (8106479329266893 / 4503599627370496)"
  by (simp add: int_truediv_def binary64_eval)



lemma quotient_360: "float_truediv (Finite 360) (8106479329266893 / 4503599627370496) = Inr (Finite 200)"
  by (simp add: float_truediv_def binary64_eval)

lemma step_angle_35: "int_truediv 360 35 = Inr (5790342378047781 / 562949953421312)"
  by (simp add: int_truediv_def binary64_eval)

lemma quotient_72: "float_truediv (Finite 72) (5790342378047781 / 562949953421312) = Inr (Finite (7881299347898367 / 1125899906842624))"
  by (simp add: float_truediv_def binary64_eval)



lemma degree_to_steps_360: "steps_per_revolution self = 200 \<Longrightarrow> degree_to_steps self 360 = Inr 200"
  by (simp add: degree_to_steps_def step_angle_200 quotient_360 int_of_float_def py_int_def)

lemma degree_to_steps_72: "steps_per_revolution self = 35 \<Longrightarrow> degree_to_steps self 72 = Inl NotAStepMultiple"
  by (simp add: degree_to_steps_def step_angle_35 quotient_72 int_of_float_def py_int_def)

subsection \<open>The error of a binary64 rounding\<close>

lemma pow2_powi: "pow2 e = 2 powi e"
  by (cases "0 \<le> e") (simp_all add: pow2_def power_int_def inverse_eq_divide power_one_over)

lemma pow2_pos [simp]: "0 < pow2 e"
  by (simp add: pow2_powi)

lemma pow2_abs [simp]: "\<bar>pow2 e\<bar> = pow2 e"
  using pow2_pos [of e] by (simp only: abs_of_pos)

lemma pow2_nonzero [simp]: "pow2 e \<noteq> 0"
  using pow2_pos [of e] by linarith

lemma pow2_add: "pow2 (a + b) = pow2 a * pow2 b"
  by (simp add: pow2_powi power_int_add)

lemma pow2_mono: "a \<le> b \<Longrightarrow> pow2 a \<le> pow2 b"
  by (simp add: pow2_powi power_int_increasing)

lemma pow2_strict_mono: "a < b \<Longrightarrow> pow2 a < pow2 b"
  by (simp add: pow2_powi power_int_strict_increasing)

lemma pow2_nat: "0 \<le> e \<Longrightarrow> pow2 e = 2 ^ nat e"
  by (simp add: pow2_def)

lemma pow2_neg: "pow2 (- e) = 1 / pow2 e"
  by (simp add: pow2_powi power_int_minus inverse_eq_divide)

lemma bit_length_bounds:
  "0 < n \<Longrightarrow> 1 \<le> bit_length n \<and> 2 ^ nat (bit_length n - 1) \<le> n \<and> n < 2 ^ nat (bit_length n)"
proof (induction n rule: bit_length.induct)
  case (1 n)
  show ?case
  proof (cases "n = 1")
    case True
    then show ?thesis by (simp add: bit_length.simps [of 1] bit_length.simps [of 0])
  next
    case False
    with "1.prems" have h: "0 < n div 2" by simp
    let ?b = "bit_length (n div 2)"
    from "1.IH" h "1.prems" have IH: "1 \<le> ?b" "2 ^ nat (?b - 1) \<le> n div 2" "n div 2 < 2 ^ nat ?b"
      by simp_all
    have b: "bit_length n = 1 + ?b"
      using "1.prems" by (simp add: bit_length.simps [of n])
    have e1: "nat (bit_length n - 1) = Suc (nat (?b - 1))" using IH(1) b by simp
    have e2: "nat (bit_length n) = Suc (nat ?b)" using IH(1) b by simp
    have "2 * 2 ^ nat (?b - 1) \<le> 2 * (n div 2)" using IH(2) by simp
    also have "\<dots> \<le> n" by simp
    finally have lo: "2 ^ nat (bit_length n - 1) \<le> n" by (simp only: e1 power_Suc)
    have "n div 2 + 1 \<le> 2 ^ nat ?b" using IH(3) by simp
    then have "2 * (n div 2) + 2 \<le> 2 * 2 ^ nat ?b" by simp
    moreover have "n < 2 * (n div 2) + 2" by presburger
    ultimately have "n < 2 * 2 ^ nat ?b" by linarith
    then have hi: "n < 2 ^ nat (bit_length n)" by (simp only: e2 power_Suc)
    from lo hi IH(1) b show ?thesis by simp
  qed
qed

lemma ilog2_bounds:
  assumes "0 < x"
  shows "pow2 (ilog2 x) \<le> x \<and> x < pow2 (ilog2 x + 1)"
proof (cases "1 \<le> x")
  case True
  let ?n = "\<lfloor>x\<rfloor>"
  let ?b = "bit_length ?n"
  from True have n: "0 < ?n" by simp
  from bit_length_bounds [OF n] have b: "1 \<le> ?b" "2 ^ nat (?b - 1) \<le> ?n" "?n < 2 ^ nat ?b"
    by simp_all
  have e: "ilog2 x = ?b - 1" using True by (simp add: ilog2_def)
  have "(2 :: rat) ^ nat (?b - 1) = of_int (2 ^ nat (?b - 1))" by simp
  also have "\<dots> \<le> of_int ?n" using b(2) by (simp only: of_int_le_iff)
  also have "\<dots> \<le> x" by simp
  finally have lo: "pow2 (?b - 1) \<le> x" using b(1) by (simp add: pow2_nat)
  have "?n + 1 \<le> 2 ^ nat ?b" using b(3) by simp
  then have "of_int (?n + 1) \<le> (of_int (2 ^ nat ?b) :: rat)" by (simp only: of_int_le_iff)
  moreover have "x < of_int (?n + 1)" by linarith
  ultimately have "x < 2 ^ nat ?b" by simp
  then have hi: "x < pow2 (?b - 1 + 1)" using b(1) by (simp add: pow2_nat)
  from lo hi show ?thesis by (simp only: e)
next
  case False
  let ?y = "1 / x"
  let ?n = "\<lceil>?y\<rceil> - 1"
  let ?b = "bit_length ?n"
  from False assms have y: "1 < ?y" by simp
  then have n: "0 < ?n" by linarith
  from bit_length_bounds [OF n] have b: "1 \<le> ?b" "2 ^ nat (?b - 1) \<le> ?n" "?n < 2 ^ nat ?b"
    by simp_all
  have e: "ilog2 x = - ?b" using False by (simp add: ilog2_def)
  have "\<lceil>?y\<rceil> \<le> 2 ^ nat ?b" using b(3) by simp
  then have "(of_int \<lceil>?y\<rceil> :: rat) \<le> of_int (2 ^ nat ?b)" by (simp only: of_int_le_iff)
  also have "\<dots> = 2 ^ nat ?b" by simp
  finally have "(of_int \<lceil>?y\<rceil> :: rat) \<le> 2 ^ nat ?b" .
  moreover have "?y \<le> of_int \<lceil>?y\<rceil>" by (rule le_of_int_ceiling)
  ultimately have "?y \<le> 2 ^ nat ?b" by (rule order_trans [rotated])
  then have "?y \<le> pow2 ?b" using b(1) by (simp add: pow2_nat)
  then have "1 \<le> pow2 ?b * x" using assms by (simp add: field_simps)
  then have "1 / pow2 ?b \<le> x" by (simp add: field_simps)
  then have lo: "pow2 (- ?b) \<le> x" by (simp add: pow2_neg)
  have "(2 :: rat) ^ nat (?b - 1) = of_int (2 ^ nat (?b - 1))" by simp
  also have "\<dots> \<le> of_int ?n" using b(2) by (simp only: of_int_le_iff)
  also have "\<dots> < ?y" by linarith
  finally have "pow2 (?b - 1) < ?y" using b(1) by (simp add: pow2_nat)
  then have "pow2 (?b - 1) * x < 1" using assms by (simp add: field_simps)
  then have "x < 1 / pow2 (?b - 1)" by (simp add: field_simps)
  then have "x < pow2 (- (?b - 1))" by (simp only: pow2_neg)
  then have hi: "x < pow2 (- ?b + 1)" by simp
  from lo hi show ?thesis by (simp only: e)
qed

lemma round_half_even_error: "\<bar>of_int (round_half_even x) - x\<bar> \<le> 1 / 2"
proof -
  have "of_int \<lfloor>x\<rfloor> \<le> x" "x < of_int \<lfloor>x\<rfloor> + 1" by linarith+
  then show ?thesis
    by (auto simp: round_half_even_def Let_def abs_le_iff)
qed


lemma pow2_numeral: "pow2 (- 52) = 1 / 2 ^ 52" "pow2 53 = 2 ^ 53"
  by (simp_all add: pow2_def)

lemma binary64_normal:
  assumes lo: "pow2 (- 1022) \<le> x" and hi: "x < pow2 1023"
  shows "\<exists>r. binary64 x = Finite r \<and> 0 < r \<and> \<bar>r - x\<bar> \<le> x / 2 ^ 53"
proof -
  have x: "0 < x" using lo pow2_pos [of "- 1022"] by linarith
  let ?e = "ilog2 x"
  from ilog2_bounds [OF x] have b: "pow2 ?e \<le> x" "x < pow2 (?e + 1)" by simp_all
  have e_lo: "- 1022 \<le> ?e"
  proof (rule ccontr)
    assume "\<not> - 1022 \<le> ?e"
    then have "?e + 1 \<le> - 1022" by simp
    then have "pow2 (?e + 1) \<le> pow2 (- 1022)" by (rule pow2_mono)
    with b(2) lo show False by linarith
  qed
  have e_hi: "?e \<le> 1022"
  proof (rule ccontr)
    assume "\<not> ?e \<le> 1022"
    then have "1023 \<le> ?e" by simp
    then have "pow2 1023 \<le> pow2 ?e" by (rule pow2_mono)
    with b(1) hi show False by linarith
  qed
  let ?u = "pow2 (?e - 52)"
  let ?m = "round_half_even (x / ?u)"
  let ?r = "of_int ?m * ?u"
  have u: "0 < ?u" by simp
  have u_eq: "?u = pow2 ?e / 2 ^ 52"
    using pow2_add [of ?e "- 52"] by (simp add: pow2_numeral)
  have "\<bar>of_int ?m - x / ?u\<bar> \<le> 1 / 2" by (rule round_half_even_error)
  then have "\<bar>of_int ?m - x / ?u\<bar> * ?u \<le> 1 / 2 * ?u"
    by (rule mult_right_mono) (rule less_imp_le [OF u])
  moreover have "\<bar>of_int ?m - x / ?u\<bar> * ?u = \<bar>?r - x\<bar>"
  proof -
    have "\<bar>of_int ?m - x / ?u\<bar> * ?u = \<bar>(of_int ?m - x / ?u) * ?u\<bar>"
      using u by (simp add: abs_mult)
    also have "(of_int ?m - x / ?u) * ?u = ?r - x"
      using u by (simp add: field_simps)
    finally show ?thesis .
  qed
  ultimately have err_u: "\<bar>?r - x\<bar> \<le> ?u / 2" by simp
  have "?u / 2 = pow2 ?e / 2 ^ 53" by (simp add: u_eq)
  also have "\<dots> \<le> x / 2 ^ 53" using b(1) by (simp add: divide_right_mono)
  finally have u_le: "?u / 2 \<le> x / 2 ^ 53" .
  with err_u have err: "\<bar>?r - x\<bar> \<le> x / 2 ^ 53" by linarith
  have small: "x / 2 ^ 53 < x" using x by (simp add: field_simps)
  have r_pos: "0 < ?r" using err small by linarith
  have "?r \<le> x + x / 2 ^ 53" using err by linarith
  also have "\<dots> < 2 * x" using small by linarith
  also have "\<dots> < 2 * pow2 1023" using hi by simp
  also have "2 * pow2 1023 = pow2 1024" using pow2_add [of 1 1023] by (simp add: pow2_def)
  finally have no_ovf: "\<not> pow2 1024 \<le> ?r" by simp
  have m: "max ?e (- 1022) = ?e" using e_lo by simp
  have "binary64 x = Finite ?r"
    using x no_ovf by (simp add: binary64_def Let_def m)
  with r_pos err show ?thesis by blast
qed

lemma round_half_even_of_int [simp]: "round_half_even (of_int k) = k"
  by (simp add: round_half_even_def)

lemma binary64_int_exact:
  assumes n: "0 < n" "n < 2 ^ 53"
  shows "binary64 (of_int n) = Finite (of_int n)"
proof -
  let ?x = "of_int n :: rat"
  have x: "0 < ?x" "1 \<le> ?x" using n by simp_all
  let ?e = "ilog2 ?x"
  from ilog2_bounds [OF x(1)] have b: "pow2 ?e \<le> ?x" "?x < pow2 (?e + 1)" by simp_all
  have e_lo: "0 \<le> ?e"
  proof (rule ccontr)
    assume "\<not> 0 \<le> ?e"
    then have "?e + 1 \<le> 0" by simp
    then have "pow2 (?e + 1) \<le> pow2 0" by (rule pow2_mono)
    with b(2) x(2) show False by (simp add: pow2_def)
  qed
  have "?x < 2 ^ 53" using n(2) by (metis of_int_less_iff of_int_numeral of_int_power)
  then have xlt: "?x < pow2 53" by (simp add: pow2_numeral)
  have e_hi: "?e \<le> 52"
  proof (rule ccontr)
    assume "\<not> ?e \<le> 52"
    then have "53 \<le> ?e" by simp
    then have "pow2 53 \<le> pow2 ?e" by (rule pow2_mono)
    with b(1) xlt show False by linarith
  qed
  let ?k = "nat (52 - ?e)"
  let ?u = "pow2 (?e - 52)"
  have u_eq: "?u = 1 / 2 ^ ?k"
  proof -
    have "?u = pow2 (- (52 - ?e))" by simp
    also have "\<dots> = 1 / pow2 (52 - ?e)" by (rule pow2_neg)
    also have "pow2 (52 - ?e) = 2 ^ ?k" using e_hi by (simp add: pow2_nat)
    finally show ?thesis .
  qed
  have q: "?x / ?u = of_int (n * 2 ^ ?k)" by (simp add: u_eq)
  have r: "of_int (round_half_even (?x / ?u)) * ?u = ?x"
    by (simp only: q round_half_even_of_int) (simp add: u_eq)
  have "?x < pow2 1024" using xlt pow2_strict_mono [of 53 1024] by linarith
  then have no_ovf: "\<not> pow2 1024 \<le> ?x" by simp
  have m: "max ?e (- 1022) = ?e" using e_lo by simp
  show ?thesis
    using x(1) no_ovf by (simp add: binary64_def Let_def m r)
qed


lemma float_of_int_exact:
  "0 < n \<Longrightarrow> n < 2 ^ 53 \<Longrightarrow> float_of_int n = Inr (of_int n)"
  by (simp add: float_of_int_def binary64_int_exact)

lemma timer_60: "float_truediv (Finite 60) 13 = Inr (Finite (2598230554252209 / 562949953421312))"
  by (simp add: float_truediv_def binary64_eval)

lemma timer_400:
  "float_truediv (Finite (2598230554252209 / 562949953421312)) 400
     = Inr (Finite (6651470218885655 / 576460752303423488))"
  by (simp add: float_truediv_def binary64_eval)

lemma timer_direct: "binary64 (30 / (13 * 200)) = Finite (831433777360707 / 72057594037927936)"
  by (simp add: binary64_eval)

lemma binary64_timer_error:
  assumes rpm_lo: "1 / 2 ^ 500 \<le> rpm" and rpm_hi: "rpm \<le> 2 ^ 500"
    and N_lo: "0 < steps_per_revolution self" and N_hi: "steps_per_revolution self < 2 ^ 52"
  shows "(60 / rpm) / (of_int (steps_per_revolution self) * 2)
           = 30 / (rpm * of_int (steps_per_revolution self))
       \<and> (\<exists>d. calculate_delay_from_rpm_binary64 self rpm = Inr (Finite d)
              \<and> \<bar>d - 30 / (rpm * of_int (steps_per_revolution self))\<bar>
                  \<le> (30 / (rpm * of_int (steps_per_revolution self))) / 2 ^ 51)"
proof -
  let ?N = "steps_per_revolution self"
  let ?q1 = "60 / rpm"
  define T :: rat where "T = 30 / (rpm * of_int ?N)"
  define D :: rat where "D = of_int (?N * 2)"
  define eps :: rat where "eps = 1 / 2 ^ 53"
  have eps: "0 < eps" "eps \<le> 1" "4 * eps = 1 / 2 ^ 51"
    by (simp_all add: eps_def)
  have rpm: "0 < rpm"
  proof -
    have "(0 :: rat) < 1 / 2 ^ 500" by simp
    with rpm_lo show ?thesis by linarith
  qed
  have D: "2 \<le> D" "D < 2 ^ 53" "0 < D"
  proof -
    have "1 \<le> ?N" "?N * 2 < 2 ^ 53" using N_lo N_hi by simp_all
    then have "(of_int 1 :: rat) \<le> of_int ?N" "(of_int (?N * 2) :: rat) < of_int (2 ^ 53)"
      by (simp_all only: of_int_le_iff of_int_less_iff)
    then show "2 \<le> D" "D < 2 ^ 53" by (simp_all add: D_def)
    then show "0 < D" by linarith
  qed
  have T: "0 < T" using rpm N_lo by (simp add: T_def)
  have T_eq: "T = ?q1 / D" using rpm N_lo by (simp add: D_def T_def)
  have first: "(60 / rpm) / (of_int ?N * 2) = T" using rpm N_lo by (simp add: T_def)
  \<comment> \<open>the first division\<close>
  define B :: rat where "B = 2 ^ 500"
  have B: "0 < B" "1 / B \<le> rpm" "rpm \<le> B"
    using rpm_lo rpm_hi by (simp_all add: B_def)
  have c1: "60 * B < pow2 1023" "pow2 (- 1022) \<le> 60 / B / 2 ^ 54"
    by (simp_all add: pow2_def B_def)
  have q1_hi: "?q1 \<le> 60 * B"
  proof -
    have "1 \<le> rpm * B" using B(1,2) by (simp add: field_simps)
    then have "60 \<le> 60 * B * rpm" by (simp add: mult.commute)
    then show ?thesis using rpm by (simp add: pos_divide_le_eq)
  qed
  have q1_lo: "60 / B \<le> ?q1"
    using rpm B(3) by (intro frac_le) simp_all
  have "pow2 (- 1022) \<le> ?q1"
  proof -
    define z where "z = 60 / B"
    have "0 \<le> z" using B(1) by (simp add: z_def)
    then have "z * 1 \<le> z * 2 ^ 54" by (intro mult_left_mono) simp_all
    then have "z / 2 ^ 54 \<le> z" by (simp add: pos_divide_le_eq)
    with c1(2) q1_lo show ?thesis unfolding z_def by linarith
  qed
  moreover have "?q1 < pow2 1023" using q1_hi c1(1) by linarith
  ultimately obtain r1 where r1: "binary64 ?q1 = Finite r1" "0 < r1" "\<bar>r1 - ?q1\<bar> \<le> ?q1 * eps"
    using binary64_normal [of ?q1] by (auto simp: eps_def)
  have s1: "float_truediv (Finite 60) rpm = Inr (Finite r1)"
    using rpm r1(1) by (simp add: float_truediv_def)
  have s2: "float_of_int (?N * 2) = Inr D"
    unfolding D_def using N_lo N_hi by (intro float_of_int_exact) simp_all
  \<comment> \<open>the second division\<close>
  let ?q2 = "r1 / D"
  have q1: "0 < ?q1" using rpm by simp
  have r1_hi: "r1 \<le> 2 * ?q1"
  proof -
    have "?q1 * eps \<le> ?q1 * 1" using eps(2) q1 by (intro mult_left_mono) simp_all
    with r1(3) show ?thesis by linarith
  qed
  have r1_lo: "?q1 / 2 \<le> r1"
  proof -
    have "eps \<le> 1 / 2" by (simp add: eps_def)
    then have "?q1 * eps \<le> ?q1 * (1 / 2)" using q1 by (intro mult_left_mono) simp_all
    with r1(3) show ?thesis by linarith
  qed
  have "?q2 \<le> r1 / 2" using D(1) r1(2) by (intro frac_le) simp_all
  then have "?q2 \<le> ?q1" using r1_hi by linarith
  then have q2_hi: "?q2 < pow2 1023" using q1_hi c1(1) by linarith
  have "r1 / 2 ^ 53 \<le> ?q2" using D(2,3) r1(2) by (intro frac_le) simp_all
  moreover have "?q1 / 2 / 2 ^ 53 \<le> r1 / 2 ^ 53" using r1_lo by (simp add: divide_right_mono)
  moreover have "60 / B / 2 / 2 ^ 53 \<le> ?q1 / 2 / 2 ^ 53"
    using q1_lo by (simp add: divide_right_mono)
  moreover have "60 / B / 2 / 2 ^ 53 = 60 / B / 2 ^ 54" by simp
  ultimately have q2_lo: "pow2 (- 1022) \<le> ?q2" using c1(2) by linarith
  from binary64_normal [OF q2_lo q2_hi] obtain r2 where
    r2: "binary64 ?q2 = Finite r2" "\<bar>r2 - ?q2\<bar> \<le> ?q2 * eps"
    by (auto simp: eps_def)
  have s3: "float_truediv (Finite r1) D = Inr (Finite r2)"
    using D(3) r2(1) by (simp add: float_truediv_def)
  have run: "calculate_delay_from_rpm_binary64 self rpm = Inr (Finite r2)"
    by (simp add: calculate_delay_from_rpm_binary64_def s1 s2 s3)
  \<comment> \<open>the two errors\<close>
  have e1: "\<bar>?q2 - T\<bar> \<le> T * eps"
  proof -
    have "?q2 - T = (r1 - ?q1) / D" by (simp add: T_eq diff_divide_distrib)
    then have "\<bar>?q2 - T\<bar> = \<bar>r1 - ?q1\<bar> / D" using D(3) by (simp add: abs_divide)
    also have "\<dots> \<le> ?q1 * eps / D"
      using r1(3) by (rule divide_right_mono) (rule less_imp_le [OF D(3)])
    also have "\<dots> = T * eps" by (simp add: T_eq)
    finally show ?thesis .
  qed
  have "?q2 \<le> T + T * eps" using e1 by linarith
  then have "?q2 * eps \<le> (T + T * eps) * eps"
    using eps(1) by (intro mult_right_mono) simp_all
  also have "(T + T * eps) * eps = T * eps + T * (eps * eps)" by (simp add: algebra_simps)
  also have "\<dots> \<le> T * eps + T * eps"
  proof -
    have "eps * eps \<le> eps * 1"
      by (rule mult_left_mono) (use eps in simp_all)
    then have "T * (eps * eps) \<le> T * (eps * 1)"
      by (rule mult_left_mono) (rule less_imp_le [OF T])
    then show ?thesis by simp
  qed
  finally have e2: "\<bar>r2 - ?q2\<bar> \<le> T * eps + T * eps" using r2(2) by linarith
  have "\<bar>r2 - T\<bar> \<le> \<bar>r2 - ?q2\<bar> + \<bar>?q2 - T\<bar>" by linarith
  also have "\<dots> \<le> T * eps + T * eps + T * eps" using e1 e2 by linarith
  also have "\<dots> \<le> T * (4 * eps)" using T eps(1) by (simp add: algebra_simps)
  also have "\<dots> = T / 2 ^ 51" by (simp only: eps(3)) simp
  finally have "\<bar>r2 - T\<bar> \<le> T / 2 ^ 51" .
  with run first show ?thesis unfolding T_def by blast
qed

lemma calculate_delay_agree:
  assumes "1 / 2 ^ 500 \<le> rpm" and "rpm \<le> 2 ^ 500"
    and "0 < steps_per_revolution self" and "steps_per_revolution self < 2 ^ 52"
  shows "\<exists>d d'. calculate_delay_from_rpm self rpm = Inr d \<and> 0 < d
           \<and> calculate_delay_from_rpm_binary64 self rpm = Inr (Finite d') \<and> 0 < d'"
proof -
  let ?T = "30 / (rpm * of_int (steps_per_revolution self))"
  have rpm: "0 < rpm"
  proof -
    have "(0 :: rat) < 1 / 2 ^ 500" by simp
    with assms(1) show ?thesis by linarith
  qed
  then have T: "0 < ?T" using assms(3) by simp
  have a: "calculate_delay_from_rpm self rpm = Inr ?T"
    using rpm assms(3) by (intro calculate_delay_value) simp_all
  from binary64_timer_error [OF assms] obtain d' where
    b: "calculate_delay_from_rpm_binary64 self rpm = Inr (Finite d')"
    and e: "\<bar>d' - ?T\<bar> \<le> ?T / 2 ^ 51"
    by blast
  have "?T / 2 ^ 51 < ?T" using T by (simp add: field_simps)
  with e have "0 < d'" by linarith
  with a b T show ?thesis by blast
qed

subsection \<open>Resolving a target and planning the move\<close>

lemma py_int_of_int [simp]: "py_int (of_int k) = k"
  by (simp add: py_int_def)



lemma move_to_same: "move_to cw rpm c c s = (Inr (), s)"
  by (simp add: move_to_def)

lemma move_to_plan:
  assumes "0 \<le> t" "t < steps_per_revolution s" "t \<noteq> c"
  shows "move_to cw rpm c t s = step (spec_distance (steps_per_revolution s) cw c t) cw rpm s"
  using assms by (simp add: move_to_def spec_distance_def)


lemma go_to_position_degree:
  "steps_from_home s = Some c \<Longrightarrow>
   go_to_position cw rpm None (Some d) s
     = (case degree_to_steps s d of Inl e \<Rightarrow> (Inl e, s) | Inr t \<Rightarrow> move_to cw rpm c t s)"
  by (simp add: go_to_position_def)


lemma exn_distinct_planner [simp]:
  "\<not> is_OutOfRange SpeedExceeded" "\<not> is_OutOfRange ZeroDivisionError"
  "\<not> is_OutOfRange SleepNegative" "is_OutOfRange OutOfRange_steps"
  "SpeedExceeded \<noteq> NotAStepMultiple" "ZeroDivisionError \<noteq> NotAStepMultiple"
  "SleepNegative \<noteq> NotAStepMultiple"
  by (simp_all add: is_OutOfRange_def OutOfRange_degree_def OutOfRange_steps_def
      SpeedExceeded_def SleepNegative_def NotAStepMultiple_def)

lemma move_to_raises:
  assumes "0 \<le> t" "t < steps_per_revolution s" and "move_to cw rpm c t s = (Inl e, s')"
  shows "e = SpeedExceeded \<or> e = ZeroDivisionError \<or> e = SleepNegative"
proof (cases "t = c")
  case True
  with assms(3) show ?thesis by (simp add: move_to_same)
next
  case False
  with assms have "step (spec_distance (steps_per_revolution s) cw c t) cw rpm s = (Inl e, s')"
    by (simp add: move_to_plan)
  then show ?thesis by (rule step_raises)
qed

section \<open>The claims\<close>

subsection \<open>Timing\<close>

text \<open>
  C8, as stated, asks that for every \<open>rpm > 0\<close> and \<open>steps_per_revolution > 0\<close> the
  timer returns exactly \<open>(60 / rpm) / (steps_per_revolution * 2)\<close>, that is
  \<open>30 / (rpm * steps_per_revolution)\<close>. At \<open>rpm = 13\<close> with 200 steps per revolution
  the two rounded divisions return \<open>6651470218885655 / 2^59\<close>
  (0.011538461538461537), which is neither the rational \<open>30 / (13 * 200)\<close> nor the
  float of that expression, \<open>831433777360707 / 2^56\<close> (0.011538461538461539).
\<close>

theorem calculate_delay_binary64_counterexample:
  "calculate_delay_from_rpm_binary64 example_motor 13
     = Inr (Finite (6651470218885655 / 576460752303423488))
   \<and> (6651470218885655 / 576460752303423488 :: rat) \<noteq> 30 / (13 * 200)
   \<and> binary64 (30 / (13 * 200)) = Finite (831433777360707 / 72057594037927936)
   \<and> (6651470218885655 / 576460752303423488 :: rat) \<noteq> 831433777360707 / 72057594037927936"
proof -
  have "float_of_int (steps_per_revolution example_motor * 2) = Inr 400"
    using float_of_int_exact [of 400] by (simp add: example_motor_def init_def)
  then have a: "calculate_delay_from_rpm_binary64 example_motor 13
               = Inr (Finite (6651470218885655 / 576460752303423488))"
    by (simp add: calculate_delay_from_rpm_binary64_def timer_60 timer_400)
  have b: "(6651470218885655 / 576460752303423488 :: rat) \<noteq> 30 / (13 * 200)"
    by simp
  have c: "(6651470218885655 / 576460752303423488 :: rat)
             \<noteq> 831433777360707 / 72057594037927936"
    by simp
  from a b timer_direct c show ?thesis by (intro conjI)
qed

text \<open>
  C8, amended. In exact arithmetic \<open>(60 / rpm) / (steps_per_revolution * 2)\<close> is
  \<open>30 / (rpm * steps_per_revolution)\<close>. For \<open>2^-500 \<le> rpm \<le> 2^500\<close> and
  \<open>0 < steps_per_revolution < 2^52\<close> the timer returns a finite float, the result of
  the two divisions each rounded to binary64, within a relative error of \<open>2^-51\<close> of
  that value.
\<close>

theorem calculate_delay_binary64_error:
  assumes rpm_lo: "1 / 2 ^ 500 \<le> rpm" and rpm_hi: "rpm \<le> 2 ^ 500"
    and N_lo: "0 < steps_per_revolution self" and N_hi: "steps_per_revolution self < 2 ^ 52"
  shows "(60 / rpm) / (of_int (steps_per_revolution self) * 2)
           = 30 / (rpm * of_int (steps_per_revolution self))
       \<and> (\<exists>d. calculate_delay_from_rpm_binary64 self rpm = Inr (Finite d)
              \<and> \<bar>d - 30 / (rpm * of_int (steps_per_revolution self))\<bar>
                  \<le> (30 / (rpm * of_int (steps_per_revolution self))) / 2 ^ 51)"
  using assms by (rule binary64_timer_error)

theorem calculate_delay_binary64_error_witness:
  "(1 / 2 ^ 500 :: rat) \<le> 13 \<and> (13 :: rat) \<le> 2 ^ 500
   \<and> 0 < steps_per_revolution example_motor \<and> steps_per_revolution example_motor < 2 ^ 52
   \<and> (\<exists>d. calculate_delay_from_rpm_binary64 example_motor 13 = Inr (Finite d)
          \<and> \<bar>d - 30 / (13 * of_int (steps_per_revolution example_motor))\<bar>
              \<le> (30 / (13 * of_int (steps_per_revolution example_motor))) / 2 ^ 51)"
proof -
  have h: "(1 / 2 ^ 500 :: rat) \<le> 13" "(13 :: rat) \<le> 2 ^ 500"
    "0 < steps_per_revolution example_motor" "steps_per_revolution example_motor < 2 ^ 52"
    by (simp_all add: example_motor_def init_def)
  from calculate_delay_binary64_error [OF h] h show ?thesis by blast
qed




subsection \<open>The executor\<close>

text \<open>
  C5. When \<open>max_rpm\<close> is set and the requested speed is above it, \<open>step\<close> fails with
  \<open>SpeedExceeded\<close> and leaves the object as it was: no pulse is emitted and
  \<open>steps_from_home\<close> is unchanged. When \<open>max_rpm\<close> is unset, or the speed is at most
  \<open>max_rpm\<close>, \<open>step\<close> does not raise \<open>SpeedExceeded\<close>.
\<close>

theorem step_speed_check:
  "(\<forall>m. max_rpm self = Some m \<longrightarrow> m < rpm \<longrightarrow>
        step steps cw rpm self = (Inl SpeedExceeded, self)
        \<and> pulses (snd (step steps cw rpm self)) = pulses self
        \<and> steps_from_home (snd (step steps cw rpm self)) = steps_from_home self)
   \<and> (max_rpm self = None \<or> (\<exists>m. max_rpm self = Some m \<and> rpm \<le> m) \<longrightarrow>
        fst (step steps cw rpm self) \<noteq> Inl SpeedExceeded)"
proof (intro conjI allI impI)
  fix m assume "max_rpm self = Some m" "m < rpm"
  then show r: "step steps cw rpm self = (Inl SpeedExceeded, self)"
    by (simp add: step_def)
  show "pulses (snd (step steps cw rpm self)) = pulses self"
    "steps_from_home (snd (step steps cw rpm self)) = steps_from_home self"
    by (simp_all add: r)
next
  assume a: "max_rpm self = None \<or> (\<exists>m. max_rpm self = Some m \<and> rpm \<le> m)"
  show "fst (step steps cw rpm self) \<noteq> Inl SpeedExceeded"
  proof
    assume f: "fst (step steps cw rpm self) = Inl SpeedExceeded"
    from a have acc: "\<not> (case max_rpm self of None \<Rightarrow> False | Some m \<Rightarrow> rpm > m)"
      by (auto split: option.splits)
    from f have "step steps cw rpm self = (Inl SpeedExceeded, snd (step steps cw rpm self))"
      by (simp add: prod_eq_iff)
    from step_raises_accepted [OF this acc] show False by simp
  qed
qed

theorem step_speed_check_witness:
  "max_rpm (init 17 27 22 200 (Some 100) True) = Some 100 \<and> (100 :: rat) < 150
   \<and> step 10 True 150 (init 17 27 22 200 (Some 100) True)
       = (Inl SpeedExceeded, init 17 27 22 200 (Some 100) True)
   \<and> (60 :: rat) \<le> 100
   \<and> fst (step 10 True 60 (init 17 27 22 200 (Some 100) True)) \<noteq> Inl SpeedExceeded"
  using step_speed_check [of "init 17 27 22 200 (Some 100) True" 150 10 True]
    step_speed_check [of "init 17 27 22 200 (Some 100) True" 60 10 True]
  by (simp add: init_def)



subsection \<open>The position counter\<close>

text \<open>
  C6. For \<open>steps_per_revolution > 0\<close>, from a state with home set and
  \<open>steps_from_home\<close> in \<open>[0, steps_per_revolution)\<close>, after every prefix of every
  sequence of \<open>update_position\<close> calls, in any mix of directions, \<open>steps_from_home\<close> is
  again in \<open>[0, steps_per_revolution)\<close>.
\<close>

theorem update_position_invariant:
  assumes "0 < steps_per_revolution self" and "position_in_range self"
  shows "\<forall>k \<le> length ds. position_in_range (fold update_position (take k ds) self)"
  using assms(2) by (simp add: fold_update_position_in_range)

theorem update_position_invariant_witness:
  "0 < steps_per_revolution (set_current_position_as_home (init 17 27 22 4 None True))
   \<and> position_in_range (set_current_position_as_home (init 17 27 22 4 None True))
   \<and> (6 :: nat) \<le> length [False, True, True, True, True, True]
   \<and> position_in_range
        (fold update_position (take 6 [False, True, True, True, True, True])
           (set_current_position_as_home (init 17 27 22 4 None True)))"
  using update_position_invariant
    [of "set_current_position_as_home (init 17 27 22 4 None True)"
        "[False, True, True, True, True, True]", THEN spec, of 6]
  by (simp add: init_def set_current_position_as_home_def position_in_range_def)



subsection \<open>The planner\<close>





text \<open>
  C3. Every exact multiple of the step angle in the closed interval \<open>[0, 360]\<close> should
  be accepted, the angle 360 in particular. Two requests that the code refuses:
  for the motor of example.py with home set, the angle 360 passes both checks on the
  angle, resolves to step index 200, and is then refused by the range check on the step
  index; for a motor with 35 steps per revolution, the angle 72, seven times the step
  angle, is refused as not a multiple, because the two rounded divisions give a
  quotient just below 7.
\<close>

theorem go_to_position_exact_multiples_rejected:
  "go_to_position True 60 None (Some 360) (set_current_position_as_home example_motor)
     = (Inl OutOfRange_steps, set_current_position_as_home example_motor)
   \<and> is_OutOfRange OutOfRange_steps
   \<and> (72 :: rat) = 7 * (360 / 35)
   \<and> go_to_position True 60 None (Some 72)
         (set_current_position_as_home (init 17 27 22 35 None True))
       = (Inl NotAStepMultiple, set_current_position_as_home (init 17 27 22 35 None True))"
proof -
  let ?H = "set_current_position_as_home example_motor"
  let ?M = "set_current_position_as_home (init 17 27 22 35 None True)"
  have H: "steps_per_revolution ?H = 200" "steps_from_home ?H = Some 0"
    by (simp_all add: example_motor_def init_def)
  have "degree_to_steps ?H 360 = Inr 200"
    using H(1) by (rule degree_to_steps_360)
  then have "go_to_position True 60 None (Some 360) ?H = move_to True 60 0 200 ?H"
    by (simp only: go_to_position_degree [OF H(2)] sum.case)
  also have "\<dots> = (Inl OutOfRange_steps, ?H)"
    by (simp add: move_to_def example_motor_def init_def)
  finally have a: "go_to_position True 60 None (Some 360) ?H = (Inl OutOfRange_steps, ?H)" .
  have M: "steps_per_revolution ?M = 35" "steps_from_home ?M = Some 0"
    by (simp_all add: init_def)
  have "degree_to_steps ?M 72 = Inl NotAStepMultiple"
    using M(1) by (rule degree_to_steps_72)
  then have b: "go_to_position True 60 None (Some 72) ?M = (Inl NotAStepMultiple, ?M)"
    by (simp only: go_to_position_degree [OF M(2)] sum.case)
  have c: "(72 :: rat) = 7 * (360 / 35)" by simp
  have d: "is_OutOfRange OutOfRange_steps" by simp
  from a b c d show ?thesis by (intro conjI)
qed



end
